theory Spec2Isabelle
  imports Complex_Main
begin

section \<open>The quick contrast estimator of the photon-noise notebooks\<close>

text \<open>
  The two notebooks \<^verbatim>\<open>nircam_photon_noise_and_contrast.ipynb\<close> and
  \<^verbatim>\<open>miri_photon_noise_and_contrast.ipynb\<close> define the same function
  \<^verbatim>\<open>quick_contrast(occulted_image, unocculted_image, n_annuli=20)\<close>.
  It is embedded here statement by statement.

  Conventions of the embedding.
  \<^item> A two-dimensional ndarray is a list of rows; \<open>shape2\<close> reads its shape. An ndarray
    is rectangular, which \<open>is_image\<close> states.
  \<^item> A pixel is a \<^typ>\<open>real\<close>: float64 is idealised to exact arithmetic (no rounding, no
    overflow), and the input images hold finite numbers only. Where a statement is about
    the value of a float64 result, it is made about any array within a tolerance of the
    exact one (\<open>close_to\<close>).
  \<^item> The values that numpy produces where exact arithmetic has none, the quotient by zero
    and the standard deviation of nothing, are kept: they are the constructors of
    \<open>npfloat\<close> other than \<open>Finite\<close>. numpy's floating-point error mode is the default
    one (a warning, no exception).
  \<^item> Every exception that numpy or scipy raises is a value \<open>Inl e\<close>.
  \<^item> The numpy and scipy functions the source calls are written out from their documented
    behaviour, under the source's names.
\<close>

subsection \<open>Values and errors\<close>

datatype py_error = ValueError | IndexError

datatype npfloat = Finite real | PosInf | NegInf | NaN

type_synonym image = "real list list"

definition shape2 :: "'a list list \<Rightarrow> nat \<times> nat" where
  "shape2 a = (length a, (case a of [] \<Rightarrow> 0 | r # _ \<Rightarrow> length r))"

definition is_image :: "nat \<Rightarrow> nat \<Rightarrow> 'a list list \<Rightarrow> bool" where
  "is_image r c a = (length a = r \<and> list_all (\<lambda>row. length row = c) a)"

definition ravel :: "'a list list \<Rightarrow> 'a list" where
  "ravel a = concat a"

subsection \<open>The aperture kernel\<close>

text \<open>The local variable \<^verbatim>\<open>kernel\<close> of the source (\<open>kernel\<close> alone is a constant of HOL).\<close>

definition kernel_aperture :: image where
  "kernel_aperture = [[0,0,1,0,0],
                      [0,1,1,1,0],
                      [1,1,1,1,1],
                      [0,1,1,1,0],
                      [0,0,1,0,0]]"

subsection \<open>scipy.signal.fftconvolve, mode 'valid'\<close>

text \<open>
  One output pixel of the full linear convolution of \<open>big\<close> with \<open>small\<close>, at the offset
  where the two overlap completely: output pixel \<open>(i, j)\<close> of the 'valid' region is pixel
  \<open>(i + r2 - 1, j + c2 - 1)\<close> of the full convolution, where \<open>(r2, c2)\<close> is the shape of
  \<open>small\<close>.
\<close>

definition conv_pixel :: "image \<Rightarrow> image \<Rightarrow> nat \<Rightarrow> nat \<Rightarrow> real" where
  "conv_pixel big small i j =
     (let (r2, c2) = shape2 small
      in sum_list (map (\<lambda>p. sum_list (map (\<lambda>q.
             small ! p ! q * big ! (i + r2 - 1 - p) ! (j + c2 - 1 - q)) [0..<c2])) [0..<r2]))"

definition conv_valid :: "image \<Rightarrow> image \<Rightarrow> image" where
  "conv_valid big small =
     (let (r1, c1) = shape2 big; (r2, c2) = shape2 small
      in map (\<lambda>i. map (\<lambda>j. conv_pixel big small i j) [0..<c1 - c2 + 1]) [0..<r1 - r2 + 1])"

text \<open>
  \<^verbatim>\<open>fftconvolve(in1, in2, mode='valid')\<close> on two-dimensional inputs: an input without
  elements gives the empty array; otherwise one input has to be at least as large as the
  other in every dimension, else \<^verbatim>\<open>ValueError\<close>; when it is the second one that is the
  larger, the two are swapped (\<^verbatim>\<open>_inputs_swap_needed\<close>). The result is the exact linear
  convolution: the rounding of the transform is not modelled.

  This is the documented contract. Releases of scipy that take an \<^verbatim>\<open>axes\<close> argument
  handle an axis on which an input has length one by broadcasting, without comparing the
  two lengths on it; they differ from the contract on an image of shape \<open>(1, c)\<close> with
  \<open>c > 5\<close> or \<open>(r, 1)\<close> with \<open>r > 5\<close> only, which they accept. The statements
  about shape errors below leave these two families of shapes out.
\<close>

definition fftconvolve :: "image \<Rightarrow> image \<Rightarrow> py_error + image" where
  "fftconvolve in1 in2 =
     (let (r1, c1) = shape2 in1; (r2, c2) = shape2 in2
      in if r1 * c1 = 0 \<or> r2 * c2 = 0 then Inr []
         else let ok1 = (r1 \<ge> r2 \<and> c1 \<ge> c2); ok2 = (r2 \<ge> r1 \<and> c2 \<ge> c1)
              in if \<not> (ok1 \<or> ok2) then Inl ValueError
                 else if ok1 then Inr (conv_valid in1 in2)
                 else Inr (conv_valid in2 in1))"

subsection \<open>numpy functions\<close>

text \<open>\<^verbatim>\<open>np.max\<close>: the largest element; \<^verbatim>\<open>ValueError\<close> on an array without elements.\<close>

definition np_max :: "image \<Rightarrow> py_error + real" where
  "np_max a = (case ravel a of [] \<Rightarrow> Inl ValueError | x # xs \<Rightarrow> Inr (fold max xs x))"

text \<open>
  \<^verbatim>\<open>indices = np.indices(shape); center = np.array(shape) / 2.\<close> and
  \<^verbatim>\<open>radial = np.sqrt((indices[0] - center[0])**2 + (indices[1] - center[1])**2)\<close>.
\<close>

definition radial_at :: "nat \<times> nat \<Rightarrow> nat \<Rightarrow> nat \<Rightarrow> real" where
  "radial_at shp i j =
     sqrt ((real i - real (fst shp) / 2)\<^sup>2 + (real j - real (snd shp) / 2)\<^sup>2)"

definition radial_grid :: "nat \<times> nat \<Rightarrow> image" where
  "radial_grid shp = map (\<lambda>i. map (\<lambda>j. radial_at shp i j) [0..<snd shp]) [0..<fst shp]"

text \<open>
  \<^verbatim>\<open>np.linspace(start, stop, num)\<close> with the end point included: \<^verbatim>\<open>ValueError\<close> on a
  negative \<open>num\<close>; otherwise \<open>num\<close> samples \<open>start + i * step\<close> with
  \<open>step = (stop - start) / (num - 1)\<close>, the last one overwritten with \<open>stop\<close> itself when
  \<open>num > 1\<close>. With \<open>num = 1\<close> the only sample is \<open>start\<close>. (numpy's separate branch for
  a step that underflows to zero computes the same real numbers.)
\<close>

definition linspace :: "real \<Rightarrow> real \<Rightarrow> int \<Rightarrow> py_error + real list" where
  "linspace start stop num =
     (if num < 0 then Inl ValueError
      else let n = nat num; dv = num - 1; delta = stop - start;
               y = map real [0..<n];
               y = (if dv > 0 then map (\<lambda>v. v * (delta / real_of_int dv)) y
                    else map (\<lambda>v. v * delta) y);
               y = map (\<lambda>v. v + start) y
           in Inr (if num > 1 then y[n - 1 := stop] else y))"

text \<open>
  \<^verbatim>\<open>np.digitize(x, bins)\<close> (\<open>right=False\<close>): \<open>bins\<close> has to be monotonic, else
  \<^verbatim>\<open>ValueError\<close>. For increasing bins the result is
  \<^verbatim>\<open>searchsorted(bins, x, side='right')\<close>, the number of edges that are \<open>\<le> x\<close>; for
  decreasing bins it is \<^verbatim>\<open>len(bins) - searchsorted(bins[::-1], x, side='right')\<close>. On a
  sorted array the binary search of \<^verbatim>\<open>searchsorted\<close> finds the length of the longest
  prefix of elements \<open>\<le> x\<close>.
\<close>

definition searchsorted_right :: "real list \<Rightarrow> real \<Rightarrow> nat" where
  "searchsorted_right bins x = length (takeWhile (\<lambda>b. b \<le> x) bins)"

definition digitize :: "image \<Rightarrow> real list \<Rightarrow> py_error + nat list list" where
  "digitize x bins =
     (if sorted bins then Inr (map (map (searchsorted_right bins)) x)
      else if sorted (rev bins)
           then Inr (map (map (\<lambda>v. length bins - searchsorted_right (rev bins) v)) x)
      else Inl ValueError)"

text \<open>\<^verbatim>\<open>np.unique\<close>: the distinct elements of the flattened array, in increasing order.\<close>

definition np_unique :: "nat list list \<Rightarrow> nat list" where
  "np_unique a = sort (remdups (ravel a))"

text \<open>
  \<^verbatim>\<open>arr[inds == a]\<close>: indexing with a boolean mask. The mask has to have the shape of the
  array, else \<^verbatim>\<open>IndexError\<close> (numpy 1.13 and later; before, a deprecation warning); the
  result holds the selected elements in row-major order.
\<close>

definition select_px :: "image \<Rightarrow> nat list list \<Rightarrow> nat \<Rightarrow> real list" where
  "select_px arr inds a = map fst (filter (\<lambda>(v, k). k = a) (zip (ravel arr) (ravel inds)))"

definition bool_index :: "image \<Rightarrow> nat list list \<Rightarrow> nat \<Rightarrow> py_error + real list" where
  "bool_index arr inds a =
     (if shape2 arr \<noteq> shape2 inds then Inl IndexError else Inr (select_px arr inds a))"

text \<open>
  \<^verbatim>\<open>np.std\<close>: \<open>sqrt(mean(abs(x - mean(x))**2))\<close>, the population standard deviation;
  \<^verbatim>\<open>nan\<close> (with a warning) for no elements.
\<close>

definition mean :: "real list \<Rightarrow> real" where
  "mean xs = sum_list xs / real (length xs)"

definition np_std :: "real list \<Rightarrow> npfloat" where
  "np_std xs =
     (if xs = [] then NaN
      else Finite (sqrt (mean (map (\<lambda>x. \<bar>x - mean xs\<bar>\<^sup>2) xs))))"

text \<open>
  Division of an array by the scalar \<open>norm\<close>, element by element, under IEEE rules: a
  quotient by zero is \<^verbatim>\<open>nan\<close> for a zero (or \<^verbatim>\<open>nan\<close>) numerator and an infinity
  otherwise; no exception is raised.
\<close>

fun np_divide :: "npfloat \<Rightarrow> real \<Rightarrow> npfloat" where
  "np_divide NaN d = NaN"
| "np_divide (Finite x) d =
     (if d \<noteq> 0 then Finite (x / d)
      else if x = 0 then NaN
      else if x > 0 then PosInf else NegInf)"
| "np_divide PosInf d = (if d < 0 then NegInf else PosInf)"
| "np_divide NegInf d = (if d < 0 then PosInf else NegInf)"

subsection \<open>quick_contrast\<close>

text \<open>
  The list comprehension: the first failing element ends the evaluation. In
  \<open>quick_contrast\<close> the local variable \<^verbatim>\<open>norm\<close> is \<open>norm_const\<close> (\<open>norm\<close> is a constant of
  HOL); the other local variables keep their names.
\<close>

fun annulus_stds :: "image \<Rightarrow> nat list list \<Rightarrow> nat list \<Rightarrow> py_error + npfloat list" where
  "annulus_stds occ inds [] = Inr []"
| "annulus_stds occ inds (a # as) =
     (case bool_index occ inds a of
        Inl e \<Rightarrow> Inl e
      | Inr px \<Rightarrow> (case annulus_stds occ inds as of
                    Inl e \<Rightarrow> Inl e
                  | Inr rest \<Rightarrow> Inr (np_std px # rest)))"

definition quick_contrast ::
  "image \<Rightarrow> image \<Rightarrow> int \<Rightarrow> py_error + (real list \<times> npfloat list)" where
  "quick_contrast occulted_image unocculted_image n_annuli =
     (case fftconvolve unocculted_image kernel_aperture of
        Inl e \<Rightarrow> Inl e
      | Inr unocc_aperture \<Rightarrow>
     (case np_max unocc_aperture of
        Inl e \<Rightarrow> Inl e
      | Inr norm_const \<Rightarrow>
     (case fftconvolve occulted_image kernel_aperture of
        Inl e \<Rightarrow> Inl e
      | Inr occ_aperture \<Rightarrow>
     (let radial = radial_grid (shape2 unocc_aperture)
      in case np_max radial of
        Inl e \<Rightarrow> Inl e
      | Inr rmax \<Rightarrow>
     (case linspace 0 rmax n_annuli of
        Inl e \<Rightarrow> Inl e
      | Inr radial_bins \<Rightarrow>
     (case digitize radial radial_bins of
        Inl e \<Rightarrow> Inl e
      | Inr annuli_inds \<Rightarrow>
     (case annulus_stds occ_aperture annuli_inds (np_unique annuli_inds) of
        Inl e \<Rightarrow> Inl e
      | Inr stds \<Rightarrow> Inr (radial_bins, map (\<lambda>s. np_divide s norm_const) stds))))))))"

subsection \<open>Notions used in the statements\<close>


text \<open>The product \<^verbatim>\<open>c * image\<close> of a scalar and an array.\<close>

definition scale_image :: "real \<Rightarrow> image \<Rightarrow> image" where
  "scale_image c a = map (map (\<lambda>v. c * v)) a"

text \<open>\<^verbatim>\<open>np.ones((r, c))\<close>, \<^verbatim>\<open>np.full((r, c), v)\<close> and the assignment \<^verbatim>\<open>a[i, j] = v\<close>.\<close>

definition full :: "nat \<Rightarrow> nat \<Rightarrow> real \<Rightarrow> image" where
  "full r c v = replicate r (replicate c v)"

definition set_px :: "image \<Rightarrow> nat \<Rightarrow> nat \<Rightarrow> real \<Rightarrow> image" where
  "set_px a i j v = a[i := (a ! i)[j := v]]"



section \<open>Facts about the stages of the computation\<close>

subsection \<open>Shapes\<close>

lemma shape2_kernel: "shape2 kernel_aperture = (5, 5)"
  by (simp add: shape2_def kernel_aperture_def)

lemma shape2_conv_valid:
  "shape2 (conv_valid big small) =
     (fst (shape2 big) - fst (shape2 small) + 1, snd (shape2 big) - snd (shape2 small) + 1)"
  by (simp add: conv_valid_def shape2_def split_def Let_def upt_conv_Cons del: upt_Suc split: list.splits)

lemma is_image_conv_valid:
  "is_image (fst (shape2 big) - fst (shape2 small) + 1) (snd (shape2 big) - snd (shape2 small) + 1)
     (conv_valid big small)"
  by (simp add: conv_valid_def is_image_def split_def Let_def list_all_iff del: upt_Suc)

lemma shape2_is_image: "is_image r c a \<Longrightarrow> 0 < r \<Longrightarrow> shape2 a = (r, c)"
  by (cases a) (auto simp: is_image_def shape2_def)

lemma fftconvolve_kernel_cases:
  "fftconvolve img kernel_aperture =
     (let (r, c) = shape2 img
      in if r * c = 0 then Inr []
         else if 5 \<le> r \<and> 5 \<le> c then Inr (conv_valid img kernel_aperture)
         else if r \<le> 5 \<and> c \<le> 5 then Inr (conv_valid kernel_aperture img)
         else Inl ValueError)"
  by (auto simp: fftconvolve_def shape2_kernel Let_def split: prod.splits)

subsection \<open>Maximum, radial distances and bin edges\<close>

lemma np_max_Nil: "np_max [] = Inl ValueError"
  by (simp add: np_max_def ravel_def)

lemma np_max_eq_Max: "ravel a \<noteq> [] \<Longrightarrow> np_max a = Inr (Max (set (ravel a)))"
  by (cases "ravel a") (simp_all add: np_max_def Max.set_eq_fold[symmetric] del: set_simps)

lemma np_max_Inr_iff: "(\<exists>m. np_max a = Inr m) \<longleftrightarrow> ravel a \<noteq> []"
  by (cases "ravel a") (simp_all add: np_max_def)

lemma ravel_radial_grid_ne: "0 < fst shp \<Longrightarrow> 0 < snd shp \<Longrightarrow> ravel (radial_grid shp) \<noteq> []"
  by (cases shp) (auto simp: ravel_def radial_grid_def)

lemma shape2_radial_grid: "0 < fst shp \<Longrightarrow> shape2 (radial_grid shp) = shp"
  by (cases shp) (simp add: radial_grid_def shape2_def upt_conv_Cons del: upt_Suc)

lemma set_ravel_radial_grid:
  "set (ravel (radial_grid shp)) = {radial_at shp i j | i j. i < fst shp \<and> j < snd shp}"
  by (auto simp: ravel_def radial_grid_def) blast

lemma radial_at_nonneg: "0 \<le> radial_at shp i j"
  by (simp add: radial_at_def)

lemma linspace_Inr:
  "0 \<le> n \<Longrightarrow> linspace 0 m n = Inr (map (\<lambda>i. if 1 < n then real i * (m / real_of_int (n - 1)) else 0) [0..<nat n])"
  apply (simp add: linspace_def Let_def)
  apply (intro conjI impI nth_equalityI)
  apply (auto simp: nth_list_update)
  done

lemma sorted_linspace:
  assumes "0 \<le> m" "linspace 0 m n = Inr bins"
  shows "sorted bins"
proof -
  have n: "0 \<le> n" using assms(2) by (auto simp: linspace_def split: if_splits)
  have b: "bins = map (\<lambda>i. if 1 < n then real i * (m / real_of_int (n - 1)) else 0) [0..<nat n]"
    using linspace_Inr[OF n, of m] assms(2) by simp
  show ?thesis
    unfolding b using assms(1)
    by (auto simp: sorted_iff_nth_mono intro!: mult_right_mono divide_right_mono)
qed

lemma digitize_sorted:
  "sorted bins \<Longrightarrow> digitize x bins = Inr (map (map (searchsorted_right bins)) x)"
  by (simp add: digitize_def)

lemma shape2_map_map: "shape2 (map (map f) a) = shape2 a"
  by (cases a) (simp_all add: shape2_def)

lemma ravel_map_map: "ravel (map (map f) a) = map f (ravel a)"
  by (simp add: ravel_def map_concat)

lemma np_unique_props:
  "sorted (np_unique a)" "distinct (np_unique a)" "set (np_unique a) = set (ravel a)"
  by (simp_all add: np_unique_def)

lemma np_unique_ne: "ravel a \<noteq> [] \<Longrightarrow> np_unique a \<noteq> []"
  using np_unique_props(3)[of a] by (metis set_empty)

subsection \<open>The list comprehension and the whole function\<close>

lemma annulus_stds_same_shape:
  "shape2 occ = shape2 inds \<Longrightarrow>
     annulus_stds occ inds as = Inr (map (\<lambda>a. np_std (select_px occ inds a)) as)"
  by (induction as) (simp_all add: bool_index_def)

lemma annulus_stds_mismatch:
  "shape2 occ \<noteq> shape2 inds \<Longrightarrow> as \<noteq> [] \<Longrightarrow> annulus_stds occ inds as = Inl IndexError"
  by (cases as) (simp_all add: bool_index_def)

lemma fftconvolve_shape_pos:
  assumes "fftconvolve img kernel_aperture = Inr U" "U \<noteq> []"
  shows "0 < fst (shape2 U) \<and> 0 < snd (shape2 U)"
  using assms
  by (auto simp: fftconvolve_kernel_cases Let_def shape2_conv_valid split: prod.splits if_splits)

lemma np_max_Inr_ne: "np_max U = Inr m \<Longrightarrow> U \<noteq> []"
  by (auto simp: np_max_Nil)

lemma radial_stage:
  assumes "0 < fst shp" "0 < snd shp" "0 \<le> n"
  shows "\<exists>rmax edge.
           np_max (radial_grid shp) = Inr rmax \<and> rmax = Max (set (ravel (radial_grid shp))) \<and>
           0 \<le> rmax \<and>
           linspace 0 rmax n = Inr edge \<and> sorted edge \<and>
           digitize (radial_grid shp) edge = Inr (map (map (searchsorted_right edge)) (radial_grid shp))"
proof -
  let ?R = "radial_grid shp"
  have ne: "ravel ?R \<noteq> []" using assms by (simp add: ravel_radial_grid_ne)
  define rmax where "rmax = Max (set (ravel ?R))"
  have m: "np_max ?R = Inr rmax" using ne by (simp add: np_max_eq_Max rmax_def)
  have "rmax \<in> set (ravel ?R)" unfolding rmax_def using ne by (intro Max_in) auto
  then have pos: "0 \<le> rmax" by (auto simp: set_ravel_radial_grid radial_at_nonneg)
  obtain edge where e: "linspace 0 rmax n = Inr edge" using linspace_Inr[OF assms(3)] by blast
  have s: "sorted edge" using sorted_linspace[OF pos e] .
  show ?thesis using m pos e s digitize_sorted[OF s] rmax_def by blast
qed

lemma quick_contrast_success:
  assumes U: "fftconvolve un kernel_aperture = Inr U" and nrm: "np_max U = Inr nrm"
    and OA: "fftconvolve occ kernel_aperture = Inr OA" and sh: "shape2 OA = shape2 U"
    and rmax: "np_max (radial_grid (shape2 U)) = Inr rmax"
    and edge: "linspace 0 rmax n = Inr edge"
    and inds: "digitize (radial_grid (shape2 U)) edge = Inr inds"
  shows "quick_contrast occ un n =
           Inr (edge, map (\<lambda>a. np_divide (np_std (select_px OA inds a)) nrm) (np_unique inds))"
proof -
  have pos: "0 < fst (shape2 U)"
    using fftconvolve_shape_pos[OF U np_max_Inr_ne[OF nrm]] by simp
  have "shape2 inds = shape2 (radial_grid (shape2 U))"
    using inds by (auto simp: digitize_def shape2_map_map split: if_splits)
  then have "shape2 OA = shape2 inds" using sh pos by (simp add: shape2_radial_grid)
  then show ?thesis
    using U nrm OA rmax edge inds by (simp add: quick_contrast_def annulus_stds_same_shape)
qed

lemma quick_contrast_mismatch:
  assumes U: "fftconvolve un kernel_aperture = Inr U" and nrm: "np_max U = Inr nrm"
    and OA: "fftconvolve occ kernel_aperture = Inr OA" and sh: "shape2 OA \<noteq> shape2 U"
  shows "quick_contrast occ un n = Inl (if n < 0 then ValueError else IndexError)"
proof (cases "n < 0")
  case True
  have pos: "0 < fst (shape2 U) \<and> 0 < snd (shape2 U)"
    using fftconvolve_shape_pos[OF U np_max_Inr_ne[OF nrm]] .
  then have "ravel (radial_grid (shape2 U)) \<noteq> []" by (simp add: ravel_radial_grid_ne)
  then obtain rmax where "np_max (radial_grid (shape2 U)) = Inr rmax"
    using np_max_Inr_iff by blast
  then show ?thesis using True U nrm OA by (simp add: quick_contrast_def linspace_def)
next
  case False
  have pos: "0 < fst (shape2 U) \<and> 0 < snd (shape2 U)"
    using fftconvolve_shape_pos[OF U np_max_Inr_ne[OF nrm]] .
  from radial_stage[of "shape2 U" n] pos False obtain rmax edge where
    r: "np_max (radial_grid (shape2 U)) = Inr rmax" and e: "linspace 0 rmax n = Inr edge"
    and d: "digitize (radial_grid (shape2 U)) edge =
              Inr (map (map (searchsorted_right edge)) (radial_grid (shape2 U)))"
    by auto
  let ?inds = "map (map (searchsorted_right edge)) (radial_grid (shape2 U))"
  have si: "shape2 ?inds = shape2 U" using pos by (simp add: shape2_map_map shape2_radial_grid)
  have "ravel ?inds \<noteq> []" using pos by (simp add: ravel_map_map ravel_radial_grid_ne)
  then have u: "np_unique ?inds \<noteq> []" by (rule np_unique_ne)
  have "annulus_stds OA ?inds (np_unique ?inds) = Inl IndexError"
    using sh si u by (simp add: annulus_stds_mismatch)
  then show ?thesis using False U nrm OA r e d by (simp add: quick_contrast_def)
qed

lemma quick_contrast_InrD:
  assumes "quick_contrast occ un n = Inr (rb, cv)"
  shows "\<exists>U nrm OA rmax inds.
           fftconvolve un kernel_aperture = Inr U \<and> np_max U = Inr nrm \<and>
           fftconvolve occ kernel_aperture = Inr OA \<and>
           np_max (radial_grid (shape2 U)) = Inr rmax \<and>
           linspace 0 rmax n = Inr rb \<and>
           digitize (radial_grid (shape2 U)) rb = Inr inds \<and>
           shape2 OA = shape2 U \<and>
           cv = map (\<lambda>a. np_divide (np_std (select_px OA inds a)) nrm) (np_unique inds)"
proof -
  from assms obtain U nrm OA rmax inds where
    U: "fftconvolve un kernel_aperture = Inr U" and nrm: "np_max U = Inr nrm"
    and OA: "fftconvolve occ kernel_aperture = Inr OA"
    and rmax: "np_max (radial_grid (shape2 U)) = Inr rmax"
    and edge: "linspace 0 rmax n = Inr rb"
    and inds: "digitize (radial_grid (shape2 U)) rb = Inr inds"
    by (auto simp: quick_contrast_def Let_def split: sum.splits)
  have n: "\<not> n < 0" using edge by (auto simp: linspace_def split: if_splits)
  have sh: "shape2 OA = shape2 U"
    using quick_contrast_mismatch[OF U nrm OA, of n] assms n by auto
  show ?thesis
    using quick_contrast_success[OF U nrm OA sh rmax edge inds] assms U nrm OA rmax edge inds sh
    by auto
qed

lemma fftconvolve_shape_only:
  assumes "shape2 a = shape2 b" "fftconvolve a kernel_aperture = Inr U" "fftconvolve b kernel_aperture = Inr V"
  shows "shape2 U = shape2 V"
  using assms
  by (auto simp: fftconvolve_kernel_cases Let_def shape2_conv_valid split: prod.splits if_splits)

lemma quick_contrast_returns:
  assumes U: "fftconvolve un kernel_aperture = Inr U" and nrm: "np_max U = Inr nrm"
    and OA: "fftconvolve occ kernel_aperture = Inr OA" and sh: "shape2 OA = shape2 U"
    and n: "0 \<le> n"
  shows "\<exists>rb cv. quick_contrast occ un n = Inr (rb, cv)"
proof -
  have pos: "0 < fst (shape2 U) \<and> 0 < snd (shape2 U)"
    using fftconvolve_shape_pos[OF U np_max_Inr_ne[OF nrm]] .
  from radial_stage[of "shape2 U" n] pos n obtain rmax edge where
    r: "np_max (radial_grid (shape2 U)) = Inr rmax" and e: "linspace 0 rmax n = Inr edge"
    and d: "digitize (radial_grid (shape2 U)) edge =
              Inr (map (map (searchsorted_right edge)) (radial_grid (shape2 U)))"
    by auto
  show ?thesis using quick_contrast_success[OF U nrm OA sh r e d] by blast
qed

subsection \<open>Images at least as large as the kernel; the bin edges\<close>

lemma fftconvolve_large:
  assumes "is_image r c img" "5 \<le> r" "5 \<le> c"
  shows "fftconvolve img kernel_aperture = Inr (conv_valid img kernel_aperture)"
    and "shape2 (conv_valid img kernel_aperture) = (r - 4, c - 4)"
    and "ravel (conv_valid img kernel_aperture) \<noteq> []"
proof -
  have s: "shape2 img = (r, c)" using assms by (simp add: shape2_is_image)
  show "fftconvolve img kernel_aperture = Inr (conv_valid img kernel_aperture)"
    using assms by (simp add: fftconvolve_kernel_cases s)
  show "shape2 (conv_valid img kernel_aperture) = (r - 4, c - 4)"
    using assms by (auto simp: shape2_conv_valid s shape2_kernel)
  show "ravel (conv_valid img kernel_aperture) \<noteq> []"
    by (auto simp: conv_valid_def ravel_def split_def Let_def simp del: upt_Suc intro!: exI[of _ 0])
qed


subsection \<open>Digitizing over sorted edges\<close>









subsection \<open>Scaling an image (exact arithmetic)\<close>

lemma annulus_stds_cases:
  "annulus_stds occ inds as =
     (if shape2 occ = shape2 inds \<or> as = []
      then Inr (map (\<lambda>a. np_std (select_px occ inds a)) as) else Inl IndexError)"
  by (cases as) (auto simp: annulus_stds_same_shape annulus_stds_mismatch bool_index_def)

lemma shape2_scale_image: "shape2 (scale_image k a) = shape2 a"
  by (simp add: scale_image_def shape2_map_map)

lemma scale_image_nth:
  "is_image r c a \<Longrightarrow> i < r \<Longrightarrow> j < c \<Longrightarrow> scale_image k a ! i ! j = k * (a ! i ! j)"
  by (simp add: scale_image_def is_image_def list_all_length)

lemma sum_list_upt_cong2:
  assumes "\<And>p q. p < r \<Longrightarrow> q < c \<Longrightarrow> f p q = (g p q :: real)"
  shows "sum_list (map (\<lambda>p. sum_list (map (\<lambda>q. f p q) [0..<c])) [0..<r])
       = sum_list (map (\<lambda>p. sum_list (map (\<lambda>q. g p q) [0..<c])) [0..<r])"
  by (intro arg_cong[where f=sum_list] map_cong refl) (simp add: assms)

lemma conv_pixel_scale_big:
  assumes big: "is_image r1 c1 big" and sm: "shape2 small = (r2, c2)"
    and i: "i + r2 \<le> r1" and j: "j + c2 \<le> c1"
  shows "conv_pixel (scale_image k big) small i j = k * conv_pixel big small i j"
proof -
  have "\<And>p q. p < r2 \<Longrightarrow> q < c2 \<Longrightarrow>
          scale_image k big ! (i + r2 - 1 - p) ! (j + c2 - 1 - q)
            = k * (big ! (i + r2 - 1 - p) ! (j + c2 - 1 - q))"
    using i j by (intro scale_image_nth[OF big]) auto
  then have "conv_pixel (scale_image k big) small i j =
      sum_list (map (\<lambda>p. sum_list (map (\<lambda>q.
             k * (small ! p ! q * big ! (i + r2 - 1 - p) ! (j + c2 - 1 - q))) [0..<c2])) [0..<r2])"
    unfolding conv_pixel_def sm by (simp, intro sum_list_upt_cong2) simp
  also have "\<dots> = k * conv_pixel big small i j"
    unfolding conv_pixel_def sm by (simp add: sum_list_const_mult)
  finally show ?thesis .
qed

lemma conv_pixel_scale_small:
  assumes sm: "is_image r2 c2 small" and r2: "0 < r2"
  shows "conv_pixel big (scale_image k small) i j = k * conv_pixel big small i j"
proof -
  have s: "shape2 small = (r2, c2)" using sm r2 by (rule shape2_is_image)
  have "\<And>p q. p < r2 \<Longrightarrow> q < c2 \<Longrightarrow>
          scale_image k small ! p ! q = k * (small ! p ! q)"
    by (intro scale_image_nth[OF sm]) auto
  then have "conv_pixel big (scale_image k small) i j =
      sum_list (map (\<lambda>p. sum_list (map (\<lambda>q.
             k * (small ! p ! q * big ! (i + r2 - 1 - p) ! (j + c2 - 1 - q))) [0..<c2])) [0..<r2])"
    unfolding conv_pixel_def shape2_scale_image s by (simp, intro sum_list_upt_cong2) simp
  also have "\<dots> = k * conv_pixel big small i j"
    unfolding conv_pixel_def s by (simp add: sum_list_const_mult)
  finally show ?thesis .
qed

lemma scale_image_map_map:
  "scale_image k (map (\<lambda>i. map (\<lambda>j. f i j) js) is) = map (\<lambda>i. map (\<lambda>j. k * f i j) js) is"
  by (simp add: scale_image_def)

lemma map_map_upt_cong:
  assumes "\<And>i j. i < r \<Longrightarrow> j < c \<Longrightarrow> f i j = g i j"
  shows "map (\<lambda>i. map (\<lambda>j. f i j) [0..<c]) [0..<r] = map (\<lambda>i. map (\<lambda>j. g i j) [0..<c]) [0..<r]"
  by (intro map_cong refl) (simp add: assms)

lemma conv_valid_scale_big:
  assumes big: "is_image r1 c1 big" and r1: "0 < r1" and sm: "shape2 small = (r2, c2)"
    and le: "r2 \<le> r1" "c2 \<le> c1" and pos: "0 < r2" "0 < c2"
  shows "conv_valid (scale_image k big) small = scale_image k (conv_valid big small)"
proof -
  have s: "shape2 big = (r1, c1)" using big r1 by (rule shape2_is_image)
  have "\<And>i j. i < r1 - r2 + 1 \<Longrightarrow> j < c1 - c2 + 1 \<Longrightarrow>
      conv_pixel (scale_image k big) small i j = k * conv_pixel big small i j"
    using le pos by (intro conv_pixel_scale_big[OF big sm]) auto
  then have "map (\<lambda>i. map (\<lambda>j. conv_pixel (scale_image k big) small i j) [0..<c1 - c2 + 1])
                 [0..<r1 - r2 + 1]
           = map (\<lambda>i. map (\<lambda>j. k * conv_pixel big small i j) [0..<c1 - c2 + 1])
                 [0..<r1 - r2 + 1]"
    by (rule map_map_upt_cong)
  then show ?thesis
    by (simp only: conv_valid_def shape2_scale_image s sm scale_image_map_map Let_def split)
qed

lemma conv_valid_scale_small:
  assumes sm: "is_image r2 c2 small" and r2: "0 < r2"
  shows "conv_valid big (scale_image k small) = scale_image k (conv_valid big small)"
  by (simp only: conv_valid_def shape2_scale_image scale_image_map_map
      conv_pixel_scale_small[OF sm r2] split_def Let_def)

lemma fftconvolve_scale:
  assumes "is_image r c a"
  shows "fftconvolve (scale_image k a) kernel_aperture = map_sum id (scale_image k) (fftconvolve a kernel_aperture)"
proof (cases "r = 0")
  case True
  then have "a = []" using assms by (simp add: is_image_def)
  then show ?thesis by (simp add: fftconvolve_kernel_cases scale_image_def shape2_def)
next
  case False
  then have s: "shape2 a = (r, c)" using assms by (simp add: shape2_is_image)
  show ?thesis
    using False
    by (auto simp: fftconvolve_kernel_cases shape2_scale_image s scale_image_def[of k "[]"]
        conv_valid_scale_big[OF assms _ shape2_kernel] conv_valid_scale_small[OF assms])
qed

lemma ravel_scale_image: "ravel (scale_image k a) = map (\<lambda>v. k * v) (ravel a)"
  by (simp add: scale_image_def ravel_map_map)

lemma fold_max_scale:
  "0 \<le> k \<Longrightarrow> fold max (map (\<lambda>v. k * v) xs) (k * x) = k * fold max xs (x::real)"
proof (induction xs arbitrary: x)
  case Nil
  show ?case by simp
next
  case (Cons a xs)
  have "max (k * a) (k * x) = k * max a x"
    using Cons.prems by (simp add: max_mult_distrib_left)
  then show ?case using Cons.IH[OF Cons.prems, of "max a x"] by simp
qed

lemma np_max_scale:
  "0 \<le> k \<Longrightarrow> np_max (scale_image k a) = map_sum id (\<lambda>m. k * m) (np_max a)"
  by (cases "ravel a") (simp_all add: np_max_def ravel_scale_image fold_max_scale)

lemma select_px_scale:
  "select_px (scale_image k a) inds b = map (\<lambda>v. k * v) (select_px a inds b)"
proof -
  have "map fst (filter (\<lambda>(v, j). j = b) (zip (map (\<lambda>v. k * v) xs) ys))
      = map (\<lambda>v. k * v) (map fst (filter (\<lambda>(v, j). j = b) (zip xs ys)))" for xs :: "real list" and ys
    by (induction xs ys rule: list_induct2') simp_all
  then show ?thesis by (simp add: select_px_def ravel_scale_image)
qed

lemma mean_mult: "mean (map (\<lambda>x. k * f x) xs) = k * mean (map f xs)"
  by (simp add: mean_def sum_list_const_mult)

lemma mean_scale: "mean (map (\<lambda>v. k * v) xs) = k * mean xs"
  using mean_mult[of k "\<lambda>x. x" xs] by simp

lemma np_std_scale:
  assumes "0 \<le> k"
  shows "np_std (map (\<lambda>v. k * v) xs) =
           (case np_std xs of Finite s \<Rightarrow> Finite (k * s) | v \<Rightarrow> v)"
proof (cases "xs = []")
  case True
  then show ?thesis by (simp add: np_std_def)
next
  case False
  have "map (\<lambda>x. \<bar>x - mean (map (\<lambda>v. k * v) xs)\<bar>\<^sup>2) (map (\<lambda>v. k * v) xs)
      = map (\<lambda>x. k\<^sup>2 * \<bar>x - mean xs\<bar>\<^sup>2) xs"
    by (simp add: mean_scale o_def right_diff_distrib[symmetric] power_mult_distrib)
  then have "mean (map (\<lambda>x. \<bar>x - mean (map (\<lambda>v. k * v) xs)\<bar>\<^sup>2) (map (\<lambda>v. k * v) xs))
      = k\<^sup>2 * mean (map (\<lambda>x. \<bar>x - mean xs\<bar>\<^sup>2) xs)"
    by (simp only: mean_mult)
  then show ?thesis
    using False assms by (simp add: np_std_def real_sqrt_mult)
qed

lemma np_divide_scale:
  assumes "0 < k"
  shows "np_divide (case v of Finite s \<Rightarrow> Finite (k * s) | w \<Rightarrow> w) (k * d) = np_divide v d"
  using assms by (cases v) (auto simp: zero_less_mult_iff mult_less_0_iff)

text \<open>
  In exact arithmetic the factor cancels: for rectangular images and \<open>k > 0\<close> the call on
  the two scaled images gives the result of the call on the images themselves. This is a
  fact about real numbers. In float64 the two results agree up to rounding only, and a
  large factor makes the squares inside \<^verbatim>\<open>np.std\<close> overflow.
\<close>

lemma quick_contrast_scale_exact:
  assumes k: "0 < k" and un: "is_image r c unocculted_image"
    and occ: "is_image r' c' occulted_image"
  shows "quick_contrast (scale_image k occulted_image) (scale_image k unocculted_image) n_annuli
       = quick_contrast occulted_image unocculted_image n_annuli"
proof -
  have k0: "0 \<le> k" using k by simp
  have d: "np_divide (np_std (select_px (scale_image k OA) inds a)) (k * m)
         = np_divide (np_std (select_px OA inds a)) m" for OA inds a m
    by (simp only: select_px_scale np_std_scale[OF k0] np_divide_scale[OF k])
  show ?thesis
    unfolding quick_contrast_def fftconvolve_scale[OF un] fftconvolve_scale[OF occ]
    by (auto simp: np_max_scale[OF k0] shape2_scale_image annulus_stds_cases d Let_def
        split: sum.splits)
qed

subsection \<open>The pixels of an annulus\<close>

lemma length_ravel: "is_image r c a \<Longrightarrow> length (ravel a) = r * c"
proof -
  assume h: "is_image r c a"
  then have "map length a = replicate r c"
    by (auto simp: is_image_def list_all_iff map_replicate_const[symmetric] intro!: map_cong)
  then show ?thesis by (simp add: ravel_def length_concat sum_list_replicate)
qed

lemma is_image_radial_grid: "is_image (fst shp) (snd shp) (radial_grid shp)"
  by (simp add: is_image_def radial_grid_def list_all_iff)

lemma is_image_map_map: "is_image r c a \<Longrightarrow> is_image r c (map (map f) a)"
  by (simp add: is_image_def list_all_iff)

lemma fftconvolve_is_image:
  assumes "fftconvolve img kernel_aperture = Inr U"
  shows "is_image (fst (shape2 U)) (snd (shape2 U)) U"
proof (cases "U = []")
  case True
  then show ?thesis by (simp add: is_image_def shape2_def)
next
  case False
  then have "U = conv_valid img kernel_aperture \<or> U = conv_valid kernel_aperture img"
    using assms by (auto simp: fftconvolve_kernel_cases Let_def split: prod.splits if_splits)
  then show ?thesis
    using is_image_conv_valid[of img kernel_aperture] is_image_conv_valid[of kernel_aperture img]
    by (auto simp: shape2_conv_valid)
qed

lemma select_px_ne:
  assumes "length (ravel arr) = length (ravel inds)" "a \<in> set (ravel inds)"
  shows "select_px arr inds a \<noteq> []"
proof -
  from assms(2) obtain p where p: "p < length (ravel inds)" "ravel inds ! p = a"
    by (auto simp: in_set_conv_nth)
  then have "(ravel arr ! p, a) \<in> set (zip (ravel arr) (ravel inds))"
    using assms(1) by (auto simp: set_zip)
  then show ?thesis by (auto simp: select_px_def filter_empty_conv)
qed

lemma mean_nonneg: "(\<And>x. x \<in> set xs \<Longrightarrow> 0 \<le> f x) \<Longrightarrow> 0 \<le> mean (map f xs)"
  unfolding mean_def by (intro divide_nonneg_nonneg sum_list_nonneg) auto

lemma np_std_cases: "np_std xs = NaN \<and> xs = [] \<or> (\<exists>s. np_std xs = Finite s \<and> 0 \<le> s \<and> xs \<noteq> [])"
  by (simp add: np_std_def mean_nonneg)

lemma np_std_single: "np_std [x] = Finite 0"
  by (simp add: np_std_def mean_def)

text \<open>Everything a returning call computed, with the facts that the later claims use.\<close>

lemma quick_contrast_run:
  assumes run: "quick_contrast occ un n = Inr (rb, cv)"
    and U: "fftconvolve un kernel_aperture = Inr U" and nrm: "np_max U = Inr nrm"
    and OA: "fftconvolve occ kernel_aperture = Inr OA"
    and d: "digitize (radial_grid (shape2 U)) rb = Inr inds"
  shows "cv = map (\<lambda>a. np_divide (np_std (select_px OA inds a)) nrm) (np_unique inds)"
    and "\<forall>a\<in>set (np_unique inds). select_px OA inds a \<noteq> []"
proof -
  from quick_contrast_InrD[OF run] U nrm OA d have
    sh: "shape2 OA = shape2 U"
    and cv: "cv = map (\<lambda>a. np_divide (np_std (select_px OA inds a)) nrm) (np_unique inds)"
    by auto
  show "cv = map (\<lambda>a. np_divide (np_std (select_px OA inds a)) nrm) (np_unique inds)" by (rule cv)
  have i: "inds = map (map (searchsorted_right rb)) (radial_grid (shape2 U)) \<or>
           inds = map (map (\<lambda>v. length rb - searchsorted_right (rev rb) v)) (radial_grid (shape2 U))"
    using d by (auto simp: digitize_def split: if_splits)
  have "is_image (fst (shape2 U)) (snd (shape2 U)) inds"
    using i is_image_map_map[OF is_image_radial_grid[of "shape2 U"]] by blast
  then have "length (ravel inds) = fst (shape2 U) * snd (shape2 U)" by (rule length_ravel)
  moreover have "length (ravel OA) = fst (shape2 U) * snd (shape2 U)"
    using length_ravel[OF fftconvolve_is_image[OF OA]] sh by simp
  ultimately have "length (ravel OA) = length (ravel inds)" by simp
  then show "\<forall>a\<in>set (np_unique inds). select_px OA inds a \<noteq> []"
    by (auto simp: np_unique_props(3) dest: select_px_ne)
qed

subsection \<open>Runs on concrete images\<close>

lemma conv_ones55: "fftconvolve (full 5 5 1) kernel_aperture = Inr [[13]]"
  by code_simp

lemma conv_zeros55: "fftconvolve (full 5 5 0) kernel_aperture = Inr [[0]]"
  by code_simp

lemma radial_grid_11: "radial_grid (Suc 0, Suc 0) = [[sqrt (1/2)]]"
  by (simp add: radial_grid_def radial_at_def power2_eq_square)

lemma linspace2: "linspace 0 m 2 = Inr [0, m]"
  by (simp add: linspace_def Let_def numeral_2_eq_2)

lemma quick_contrast_ones55:
  "quick_contrast (full 5 5 1) (full 5 5 1) 2 = Inr ([0, sqrt (1/2)], [Finite 0])"
  apply (rule quick_contrast_success[where U="[[13]]" and OA="[[13]]" and nrm=13 and rmax="sqrt (1/2)" and inds="[[2]]", THEN trans])
  apply (simp_all add: conv_ones55 np_max_def ravel_def shape2_def radial_grid_11 linspace2 digitize_def searchsorted_right_def
     np_unique_def select_px_def np_std_def mean_def)
  done

lemma quick_contrast_zeros55:
  "quick_contrast (full 5 5 1) (full 5 5 0) 2 = Inr ([0, sqrt (1/2)], [NaN])"
  apply (rule quick_contrast_success[where U="[[0]]" and OA="[[13]]" and nrm=0
        and rmax="sqrt (1/2)" and inds="[[2]]", THEN trans])
  apply (simp_all add: conv_ones55 conv_zeros55 np_max_def ravel_def shape2_def radial_grid_11
      linspace2 digitize_def searchsorted_right_def np_unique_def select_px_def np_std_def
      mean_def)
  done


lemma conv_spot57: "fftconvolve (set_px (full 5 7 0) 2 6 2) kernel_aperture = Inr [[0, 0, 2]]"
  by code_simp

lemma radial_grid_13:
  "radial_grid (shape2 [[a, b, c]]) = [[sqrt (5/2), sqrt (1/2), sqrt (1/2)]]"
  by (simp add: shape2_def radial_grid_def radial_at_def power2_eq_square upt_conv_Cons)

lemma np_max_radial_13: "np_max [[sqrt (5/2), sqrt (1/2), sqrt (1/2)]] = Inr (sqrt (5/2))"
  by (simp add: np_max_def ravel_def)

lemma digitize_13:
  "digitize [[sqrt (5/2), sqrt (1/2), sqrt (1/2)]] [0, sqrt (5/2)] = Inr [[2, 1, 1]]"
  by (simp add: digitize_def searchsorted_right_def)

lemma np_max_row3: "np_max [[a, a, a]] = Inr a"
  by (simp add: np_max_def ravel_def)




lemma unique_211: "np_unique [[2, 1, 1]] = [1, 2]"
  by (simp add: np_unique_def ravel_def)

lemma quick_contrast_1x3:
  assumes un: "fftconvolve un kernel_aperture = Inr [[u, u, u]]"
    and occ: "fftconvolve occ kernel_aperture = Inr [[a, b, c]]"
  shows "quick_contrast occ un 2
           = Inr ([0, sqrt (5/2)], [np_divide (np_std [b, c]) u, np_divide (np_std [a]) u])"
proof -
  have sh: "shape2 [[a, b, c]] = shape2 [[u, u, u]]" by (simp add: shape2_def)
  have r: "np_max (radial_grid (shape2 [[u, u, u]])) = Inr (sqrt (5/2))"
    by (simp only: radial_grid_13 np_max_radial_13)
  have d: "digitize (radial_grid (shape2 [[u, u, u]])) [0, sqrt (5/2)] = Inr [[2, 1, 1]]"
    by (simp only: radial_grid_13 digitize_13)
  have s: "map (\<lambda>k. np_divide (np_std (select_px [[a, b, c]] [[2, 1, 1]] k)) u) (np_unique [[2, 1, 1]])
         = [np_divide (np_std [b, c]) u, np_divide (np_std [a]) u]"
    unfolding unique_211 by (simp add: select_px_def ravel_def)
  show ?thesis
    using quick_contrast_success[OF un np_max_row3 occ sh r linspace2 d]
    by (simp only: s)
qed

lemma np_std_02: "np_std [0, 2] = Finite 1"
  by (simp add: np_std_def mean_def)


lemma conv_zeros57: "fftconvolve (full 5 7 0) kernel_aperture = Inr [[0, 0, 0]]"
  by code_simp






lemma conv_ones33: "fftconvolve (full 3 3 1) kernel_aperture = Inr [[6, 7, 6], [7, 9, 7], [6, 7, 6]]"
  by code_simp

lemma conv_ones77: "fftconvolve (full 7 7 1) kernel_aperture = Inr [[13, 13, 13], [13, 13, 13], [13, 13, 13]]"
  by code_simp

lemma np_max_conv_ones33: "np_max [[6, 7, 6], [7, 9, 7], [6, 7, 6]] = Inr 9"
  by (simp add: np_max_def ravel_def)




subsection \<open>Which pixels an annulus holds\<close>








subsection \<open>An array close to the exact convolution\<close>





section \<open>The claims\<close>







text \<open>
  C3. Shape errors. The function checks no shape itself; what fails is what
  \<^verbatim>\<open>fftconvolve\<close>, \<^verbatim>\<open>np.max\<close> and the boolean indexing refuse. As stated the claim
  fails: \<^verbatim>\<open>fftconvolve\<close> swaps an image that is no larger than the kernel in both
  dimensions with the kernel, so a \<open>3 \<times> 3\<close> pair of images gets a contrast curve, and so
  does a \<open>7 \<times> 7\<close> occulted image with a \<open>3 \<times> 3\<close> unocculted one, whose convolved shapes
  coincide. What holds, for rectangular images:
  \<^item> an unocculted image that is smaller than the kernel in one dimension and larger in the
    other gives \<^verbatim>\<open>ValueError\<close>, and such an occulted image gives an error as well (a
    dimension of length one is left out of this statement, see \<open>fftconvolve\<close> above);
  \<^item> convolved outputs of different shapes give an error;
  \<^item> two images that are both at least as large as the kernel and differ in shape give an
    error;
  \<^item> two images of one and the same shape, not empty and no larger than the kernel in
    both dimensions, give no error when \<open>n_annuli \<ge> 0\<close>: the call returns a contrast
    curve.
\<close>

theorem quick_contrast_shape_errors:
  assumes un: "is_image r c unocculted_image" and occ: "is_image r' c' occulted_image"
  shows "((r < 5 \<and> r \<noteq> 1 \<and> 5 < c) \<or> (5 < r \<and> c < 5 \<and> c \<noteq> 1) \<longrightarrow>
            quick_contrast occulted_image unocculted_image n_annuli = Inl ValueError)
       \<and> ((r' < 5 \<and> r' \<noteq> 1 \<and> 5 < c') \<or> (5 < r' \<and> c' < 5 \<and> c' \<noteq> 1) \<longrightarrow>
            isl (quick_contrast occulted_image unocculted_image n_annuli))
       \<and> (fftconvolve unocculted_image kernel_aperture = Inr unocc_aperture \<and>
          fftconvolve occulted_image kernel_aperture = Inr occ_aperture \<and>
          shape2 occ_aperture \<noteq> shape2 unocc_aperture \<longrightarrow>
            isl (quick_contrast occulted_image unocculted_image n_annuli))
       \<and> (5 \<le> r \<and> 5 \<le> c \<and> 5 \<le> r' \<and> 5 \<le> c' \<and> (r', c') \<noteq> (r, c) \<longrightarrow>
            isl (quick_contrast occulted_image unocculted_image n_annuli))
       \<and> (0 < r \<and> r \<le> 5 \<and> 0 < c \<and> c \<le> 5 \<and> (r', c') = (r, c) \<and> 0 \<le> n_annuli \<longrightarrow>
            (\<exists>radial_bins contrast.
               quick_contrast occulted_image unocculted_image n_annuli
                 = Inr (radial_bins, contrast)))"
proof -
  have mismatch: "isl (quick_contrast occulted_image unocculted_image n_annuli)"
    if "fftconvolve unocculted_image kernel_aperture = Inr U"
      "fftconvolve occulted_image kernel_aperture = Inr OA" "shape2 OA \<noteq> shape2 U" for U OA
  proof (cases "np_max U")
    case (Inl e)
    then show ?thesis using that(1) by (simp add: quick_contrast_def)
  next
    case (Inr m)
    show ?thesis using quick_contrast_mismatch[OF that(1) Inr that(2,3), of n_annuli] by simp
  qed
  have 1: "quick_contrast occulted_image unocculted_image n_annuli = Inl ValueError"
    if h: "(r < 5 \<and> r \<noteq> 1 \<and> 5 < c) \<or> (5 < r \<and> c < 5 \<and> c \<noteq> 1)"
  proof (cases "r = 0")
    case True
    then have "unocculted_image = []" using un by (simp add: is_image_def)
    then show ?thesis
      by (simp add: quick_contrast_def fftconvolve_kernel_cases shape2_def np_max_Nil)
  next
    case False
    then have s: "shape2 unocculted_image = (r, c)" using un by (simp add: shape2_is_image)
    show ?thesis using h False
      by (auto simp: quick_contrast_def fftconvolve_kernel_cases s np_max_Nil)
  qed
  have 2: "isl (quick_contrast occulted_image unocculted_image n_annuli)"
    if h: "(r' < 5 \<and> r' \<noteq> 1 \<and> 5 < c') \<or> (5 < r' \<and> c' < 5 \<and> c' \<noteq> 1)"
  proof (cases "fftconvolve unocculted_image kernel_aperture")
    case (Inl e)
    then show ?thesis by (simp add: quick_contrast_def)
  next
    case U: (Inr U)
    show ?thesis
    proof (cases "np_max U")
      case (Inl e)
      then show ?thesis using U by (simp add: quick_contrast_def)
    next
      case m: (Inr m)
      have pos: "0 < fst (shape2 U)" using fftconvolve_shape_pos[OF U np_max_Inr_ne[OF m]] by simp
      show ?thesis
      proof (cases "r' * c' = 0")
        case True
        then have "shape2 occulted_image = (0, 0) \<or> shape2 occulted_image = (r', 0)"
          using occ by (cases occulted_image) (auto simp: is_image_def shape2_def)
        then have "fftconvolve occulted_image kernel_aperture = Inr []"
          by (auto simp: fftconvolve_kernel_cases)
        moreover have "shape2 ([]::image) \<noteq> shape2 U" using pos by (auto simp: shape2_def)
        ultimately show ?thesis using mismatch[OF U] by blast
      next
        case False
        then have s: "shape2 occulted_image = (r', c')" using occ by (simp add: shape2_is_image)
        have "fftconvolve occulted_image kernel_aperture = Inl ValueError"
          using h False by (auto simp: fftconvolve_kernel_cases s)
        then show ?thesis using U m by (simp add: quick_contrast_def)
      qed
    qed
  qed
  have 4: "isl (quick_contrast occulted_image unocculted_image n_annuli)"
    if h: "5 \<le> r \<and> 5 \<le> c \<and> 5 \<le> r' \<and> 5 \<le> c' \<and> (r', c') \<noteq> (r, c)"
  proof -
    have a: "fftconvolve unocculted_image kernel_aperture = Inr (conv_valid unocculted_image kernel_aperture)"
      "shape2 (conv_valid unocculted_image kernel_aperture) = (r - 4, c - 4)"
      using fftconvolve_large(1,2)[OF un] h by auto
    have b: "fftconvolve occulted_image kernel_aperture = Inr (conv_valid occulted_image kernel_aperture)"
      "shape2 (conv_valid occulted_image kernel_aperture) = (r' - 4, c' - 4)"
      using fftconvolve_large(1,2)[OF occ] h by auto
    have "(r' - 4, c' - 4) \<noteq> (r - 4, c - 4)" using h by auto
    then show ?thesis using mismatch[OF a(1) b(1)] a(2) b(2) by simp
  qed
  have 5: "\<exists>radial_bins contrast.
               quick_contrast occulted_image unocculted_image n_annuli = Inr (radial_bins, contrast)"
    if h: "0 < r \<and> r \<le> 5 \<and> 0 < c \<and> c \<le> 5 \<and> (r', c') = (r, c) \<and> 0 \<le> n_annuli"
  proof -
    have su: "shape2 unocculted_image = (r, c)" using un h by (simp add: shape2_is_image)
    have so: "shape2 occulted_image = (r, c)" using occ h by (simp add: shape2_is_image)
    define U where "U = (if 5 \<le> r \<and> 5 \<le> c then conv_valid unocculted_image kernel_aperture
                         else conv_valid kernel_aperture unocculted_image)"
    have "fst (shape2 U) = Suc (fst (shape2 U) - 1)"
      unfolding U_def by (simp add: shape2_conv_valid)
    then have "U \<noteq> []" by (auto simp: shape2_def)
    moreover have "fftconvolve unocculted_image kernel_aperture = Inr U"
      unfolding U_def using h by (auto simp: fftconvolve_kernel_cases su)
    ultimately have U: "fftconvolve unocculted_image kernel_aperture = Inr U" "U \<noteq> []"
      by simp_all
    define OA where "OA = (if 5 \<le> r \<and> 5 \<le> c then conv_valid occulted_image kernel_aperture
                          else conv_valid kernel_aperture occulted_image)"
    have OA: "fftconvolve occulted_image kernel_aperture = Inr OA"
      unfolding OA_def using h by (auto simp: fftconvolve_kernel_cases so)
    have p: "0 < fst (shape2 U) \<and> 0 < snd (shape2 U)" using fftconvolve_shape_pos[OF U] .
    have "is_image (fst (shape2 U)) (snd (shape2 U)) U" using fftconvolve_is_image[OF U(1)] .
    then have "length (ravel U) = fst (shape2 U) * snd (shape2 U)" by (rule length_ravel)
    then have "ravel U \<noteq> []" using p by auto
    then obtain nrm where nrm: "np_max U = Inr nrm" using np_max_Inr_iff by blast
    have sh: "shape2 OA = shape2 U"
      using fftconvolve_shape_only[OF _ OA U(1)] su so by simp
    show ?thesis using quick_contrast_returns[OF U(1) nrm OA sh] h by simp
  qed
  show ?thesis using 1 2 4 5 mismatch by blast
qed

theorem quick_contrast_shape_errors_counterexample:
  "\<not> isl (quick_contrast (full 3 3 1) (full 3 3 1) 2) \<and>
   \<not> isl (quick_contrast (full 7 7 1) (full 3 3 1) 2)"
proof -
  have s: "shape2 [[13, 13, 13], [13, 13, 13], [13, 13, 13::real]]
         = shape2 [[6, 7, 6], [7, 9, 7], [6, 7, 6::real]]"
    by (simp add: shape2_def)
  have n: "(0::int) \<le> 2" by simp
  show ?thesis
    using quick_contrast_returns[OF conv_ones33 np_max_conv_ones33 conv_ones33 refl n]
      quick_contrast_returns[OF conv_ones33 np_max_conv_ones33 conv_ones77 s n]
    by auto
qed

theorem quick_contrast_shape_errors_witness:
  "is_image 3 7 (full 3 7 1) \<and> is_image 7 7 (full 7 7 1) \<and> is_image 9 9 (full 9 9 1) \<and>
   is_image 3 3 (full 3 3 1) \<and>
   (3::nat) < 5 \<and> (3::nat) \<noteq> 1 \<and> (5::nat) < 7 \<and>
   quick_contrast (full 7 7 1) (full 3 7 1) 2 = Inl ValueError \<and>
   isl (quick_contrast (full 3 7 1) (full 7 7 1) 2) \<and>
   fftconvolve (full 7 7 1) kernel_aperture = Inr (full 3 3 13) \<and>
   fftconvolve (full 9 9 1) kernel_aperture = Inr (full 5 5 13) \<and>
   shape2 (full 5 5 13) \<noteq> shape2 (full 3 3 13) \<and>
   (5::nat) \<le> 7 \<and> (5::nat) \<le> 9 \<and> ((9::nat), (9::nat)) \<noteq> (7, 7) \<and>
   isl (quick_contrast (full 9 9 1) (full 7 7 1) 2) \<and>
   (0::nat) < 3 \<and> (3::nat) \<le> 5 \<and> (0::int) \<le> 2 \<and>
   (\<exists>radial_bins contrast.
      quick_contrast (full 3 3 1) (full 3 3 1) 2 = Inr (radial_bins, contrast))"
proof -
  have a: "is_image 3 7 (full 3 7 1)" and b: "is_image 7 7 (full 7 7 1)"
    and c: "is_image 9 9 (full 9 9 1)" and s: "is_image 3 3 (full 3 3 1)" by code_simp+
  have u: "fftconvolve (full 7 7 1) kernel_aperture = Inr (full 3 3 13)" by code_simp
  have v: "fftconvolve (full 9 9 1) kernel_aperture = Inr (full 5 5 13)" by code_simp
  have d: "shape2 (full 5 5 13) \<noteq> shape2 (full 3 3 13)" by code_simp
  have r: "\<exists>radial_bins contrast.
      quick_contrast (full 3 3 1) (full 3 3 1) 2 = Inr (radial_bins, contrast)"
    using quick_contrast_shape_errors[OF s s, of 2] by simp
  show ?thesis
    using a b c s u v d r quick_contrast_shape_errors[OF a b, of 2]
      quick_contrast_shape_errors[OF b a, of 2]
      quick_contrast_shape_errors[OF b c, where n_annuli = 2
        and unocc_aperture = "full 3 3 13" and occ_aperture = "full 5 5 13"]
    by simp
qed

text \<open>
  C4. A zero normalization constant. As stated the claim fails: the function has no check
  of \<open>norm\<close>, and the division of an array by zero raises nothing in numpy. What holds: when
  the peak of the convolved unocculted image is zero (and the convolved shapes agree and
  \<open>n_annuli \<ge> 0\<close>), the call returns radial bins and a contrast sequence, every element
  of which is \<^verbatim>\<open>nan\<close> or \<^verbatim>\<open>+inf\<close>. A peak that is not finite needs an image with a
  pixel that is not finite, which the embedding excludes.
\<close>

theorem zero_norm_returns:
  assumes U: "fftconvolve unocculted_image kernel_aperture = Inr unocc_aperture"
    and nrm: "np_max unocc_aperture = Inr 0"
    and OA: "fftconvolve occulted_image kernel_aperture = Inr occ_aperture"
    and sh: "shape2 occ_aperture = shape2 unocc_aperture"
    and n: "0 \<le> n_annuli"
  shows "\<exists>radial_bins contrast.
           quick_contrast occulted_image unocculted_image n_annuli = Inr (radial_bins, contrast) \<and>
           (\<forall>v\<in>set contrast. v = NaN \<or> v = PosInf)"
proof -
  from quick_contrast_returns[OF U nrm OA sh n] obtain rb cv where
    run: "quick_contrast occulted_image unocculted_image n_annuli = Inr (rb, cv)" by blast
  from quick_contrast_InrD[OF run] U obtain inds where
    d: "digitize (radial_grid (shape2 unocc_aperture)) rb = Inr inds" by auto
  note r = quick_contrast_run[OF run U nrm OA d]
  have "v = NaN \<or> v = PosInf" if "v \<in> set cv" for v
  proof -
    from that r(1) obtain a where a: "a \<in> set (np_unique inds)"
      "v = np_divide (np_std (select_px occ_aperture inds a)) 0" by auto
    then have "select_px occ_aperture inds a \<noteq> []" using r(2) by simp
    then obtain s where "np_std (select_px occ_aperture inds a) = Finite s" "0 \<le> s"
      using np_std_cases[of "select_px occ_aperture inds a"] by auto
    then show ?thesis using a(2) by auto
  qed
  then show ?thesis using run by blast
qed

theorem zero_norm_returns_counterexample:
  "fftconvolve (full 5 5 0) kernel_aperture = Inr [[0]] \<and> np_max [[0]] = Inr 0 \<and>
   quick_contrast (full 5 5 1) (full 5 5 0) 2 = Inr ([0, sqrt (1/2)], [NaN])"
  using conv_zeros55 quick_contrast_zeros55 by (simp add: np_max_def ravel_def)

theorem zero_norm_returns_witness:
  "fftconvolve (full 5 7 0) kernel_aperture = Inr [[0, 0, 0]] \<and> np_max [[0, 0, 0]] = Inr 0 \<and>
   fftconvolve (set_px (full 5 7 0) 2 6 2) kernel_aperture = Inr [[0, 0, 2]] \<and>
   shape2 [[0, 0, 2::real]] = shape2 [[0, 0, 0::real]] \<and> (0::int) \<le> 2 \<and>
   quick_contrast (set_px (full 5 7 0) 2 6 2) (full 5 7 0) 2
     = Inr ([0, sqrt (5/2)], [PosInf, NaN])"
proof -
  have sh: "shape2 [[0, 0, 2::real]] = shape2 [[0, 0, 0::real]]" by (simp add: shape2_def)
  have n: "(0::int) \<le> 2" by simp
  have run: "quick_contrast (set_px (full 5 7 0) 2 6 2) (full 5 7 0) 2
     = Inr ([0, sqrt (5/2)], [PosInf, NaN])"
    using quick_contrast_1x3[OF conv_zeros57 conv_spot57]
    by (simp add: np_std_02 np_std_single)
  show ?thesis
    using zero_norm_returns[OF conv_zeros57 np_max_row3 conv_spot57 sh n]
      conv_zeros57 np_max_row3[of 0] conv_spot57 sh run
    by simp
qed









text \<open>
  C10. The radial bins depend on the shape of the unocculted image and on the number of
  annuli only. Whenever two calls with the same number of annuli both return, and their
  unocculted images have the same shape, the two sequences of radial bins are equal,
  whatever the pixels of the four images are.
\<close>

theorem radial_bins_shape_only:
  assumes "shape2 un1 = shape2 un2"
    and "quick_contrast occ1 un1 n = Inr (rb1, cv1)"
    and "quick_contrast occ2 un2 n = Inr (rb2, cv2)"
  shows "rb1 = rb2"
proof -
  from quick_contrast_InrD[OF assms(2)] obtain U1 rmax1 where
    a: "fftconvolve un1 kernel_aperture = Inr U1" "np_max (radial_grid (shape2 U1)) = Inr rmax1"
       "linspace 0 rmax1 n = Inr rb1" by blast
  from quick_contrast_InrD[OF assms(3)] obtain U2 rmax2 where
    b: "fftconvolve un2 kernel_aperture = Inr U2" "np_max (radial_grid (shape2 U2)) = Inr rmax2"
       "linspace 0 rmax2 n = Inr rb2" by blast
  have "shape2 U1 = shape2 U2" using fftconvolve_shape_only[OF assms(1) a(1) b(1)] .
  then show ?thesis using a b by simp
qed

theorem radial_bins_shape_only_witness:
  "shape2 (full 5 5 1) = shape2 (full 5 5 0) \<and>
   quick_contrast (full 5 5 1) (full 5 5 1) 2 = Inr ([0, sqrt (1/2)], [Finite 0]) \<and>
   quick_contrast (full 5 5 1) (full 5 5 0) 2 = Inr ([0, sqrt (1/2)], [NaN]) \<and>
   [0, sqrt (1/2)] = [0, sqrt (1/2)]"
proof -
  have s: "shape2 (full 5 5 1) = shape2 (full 5 5 0)" by code_simp
  show ?thesis
    using s quick_contrast_ones55 quick_contrast_zeros55
      radial_bins_shape_only[OF s quick_contrast_ones55 quick_contrast_zeros55]
    by simp
qed

end
